theory Spec2Isabelle
  imports Main "HOL-Library.Word"
begin

unbundle bit_operations_syntax

section \<open>Common types of the kernel\<close>

text \<open>
  Addresses are natural numbers and \<open>NULL\<close> is 0. Modification events, propagation
  conditions and modification event deltas are C \<open>int\<close>s (\<open>typedef int ModEvent\<close>,
  \<open>PropCond\<close>, \<open>ModEventDelta\<close>); propagation conditions that index the subscription
  array are never negative and are modelled as \<open>nat\<close>.
\<close>

type_synonym addr = nat

abbreviation (input) NULL :: addr where
  "NULL \<equiv> 0"

type_synonym ModEvent = int
type_synonym PropCond = nat
type_synonym ModEventDelta = int

definition ME_GEN_FAILED :: ModEvent where
  "ME_GEN_FAILED = - 1"

definition ME_GEN_NONE :: ModEvent where
  "ME_GEN_NONE = 0"



text \<open>
  \<open>enum ExecStatus\<close>. The two internal values start with a double underscore in the
  source; \<open>ES_OK\<close> is the same value as \<open>ES_NOFIX\<close>.
\<close>

datatype ExecStatus = ES_SUBSUMED_internal | ES_FAILED | ES_NOFIX | ES_FIX | ES_PARTIAL_internal

abbreviation ES_OK :: ExecStatus where
  "ES_OK \<equiv> ES_NOFIX"

text \<open>
  The value of an expression of type \<open>unsigned int\<close>, 32 bits wide: arithmetic wraps
  around modulo \<open>2^32\<close>. The counters of the kernel are natural numbers below \<open>2^32\<close>
  and every operation of the source on them is written with \<open>u32\<close>; a subtraction
  \<open>x - y\<close> is \<open>u32 (x + 2^32 - y)\<close>.
\<close>

definition u32 :: "nat \<Rightarrow> nat" where
  "u32 n = n mod 2 ^ 32"

definition PC_MAX :: nat where
  "PC_MAX = 7"

text \<open>
  Exceptions and failed assertions are values: \<open>SpaceNotStable\<close> is the exception thrown
  by \<open>Space::description\<close>, \<open>AssertionFailed\<close> stands for \<open>assert\<close> and
  \<open>GECODE_NEVER\<close>, \<open>OutOfBounds\<close> for a search that leaves the subscription array.
\<close>

datatype error = SpaceNotStable | SpaceFailed | AssertionFailed | OutOfBounds

section \<open>Space\<close>

text \<open>
  Modelled from the spec: the class \<open>MemoryManager\<close> (\<open>gecode/kernel/memory-manager.hpp\<close>
  is not among the sources). The specification describes a scoped arena whose freed memory
  is kept for reuse inside the space and never returned to the system. The model is an
  arena that hands out the next unused addresses (\<open>cur\<close>) and records every range that
  is given back (\<open>reused\<close>, most recent first, each with the address and the size that was
  passed); \<open>subscriptions\<close> is the start of the region reserved for subscription arrays
  (\<open>mm.subscriptions()\<close>).
\<close>

text \<open>
  The part of \<open>class Space\<close> the functions below read and write. \<open>queue\<close> is the
  address \<open>&pc.p.queue[0]\<close>; the eight queue heads are the \<open>ActorLink\<close> objects at
  \<open>queue + 0 .. queue + PC_MAX\<close>, counted in \<open>ActorLink\<close>s as pointer arithmetic on
  \<open>ActorLink*\<close> does. \<open>lnk_next\<close> and \<open>lnk_prev\<close> hold the fields \<open>_next\<close> and \<open>_prev\<close>
  of the \<open>ActorLink\<close> at each address, \<open>u_med\<close> the field \<open>u.med\<close> of the propagator at
  each address. \<open>bytes\<close> is the memory of the arena read through a \<open>char*\<close>, \<open>slots\<close>
  the memory read through an \<open>ActorLink**\<close>: the slot \<open>b[i]\<close> of the array at \<open>b\<close> is
  \<open>slots (b + i)\<close>, addresses of slots being counted in slots.
\<close>

record MemoryManager =
  cur :: addr
  subscriptions :: addr
  reused :: "(addr \<times> nat) list"

definition mm_alloc :: "MemoryManager \<Rightarrow> nat \<Rightarrow> addr \<times> MemoryManager" where
  "mm_alloc m sz = (cur m, m\<lparr>cur := cur m + sz\<rparr>)"

definition mm_reuse :: "MemoryManager \<Rightarrow> addr \<Rightarrow> nat \<Rightarrow> MemoryManager" where
  "mm_reuse m p sz = m\<lparr>reused := (p, sz) # reused m\<rparr>"

record space =
  mm :: MemoryManager
  bytes :: "addr \<Rightarrow> 8 word"
  slots :: "addr \<Rightarrow> addr"
  active :: addr
  queue :: addr
  n_sub :: nat
  b_status :: addr
  lnk_next :: "addr \<Rightarrow> addr"
  lnk_prev :: "addr \<Rightarrow> addr"
  u_med :: "addr \<Rightarrow> ModEventDelta"

definition fail :: "space \<Rightarrow> space" where
  "fail home = home\<lparr>active := NULL\<rparr>"

definition failed :: "space \<Rightarrow> bool" where
  "failed home \<longleftrightarrow> active home = NULL"

definition stable_space :: "space \<Rightarrow> bool" where
  "stable_space home \<longleftrightarrow> active home < queue home"

text \<open>
  \<open>Space::description\<close>. The virtual \<open>Branching::description\<close> of the branching
  \<open>b_status\<close> points to is the parameter \<open>bdesc\<close>.
\<close>

definition description :: "(addr \<Rightarrow> space \<Rightarrow> 'd) \<Rightarrow> space \<Rightarrow> error + 'd" where
  "description bdesc home =
     (if \<not> stable_space home then Inl SpaceNotStable
      else Inr (bdesc (b_status home) home))"

section \<open>Search dispatch\<close>

text \<open>
  \<open>Search::bab\<close>. \<open>has_threads\<close> is the preprocessor symbol \<open>GECODE_HAS_THREADS\<close>.
  The class \<open>Options\<close> and the translation function \<open>threads(o)\<close> are declared in
  \<open>gecode/search.hh\<close>, which is not among the sources: the options are a record with the
  integer field the specification names, and the translation is the parameter
  \<open>translate\<close>. The two engines are out of scope; an engine value records which
  constructor function was called and with what.
\<close>

record Options =
  threads :: int

datatype 's Engine =
    Sequential_bab 's nat Options
  | Parallel_bab 's nat Options

definition bab :: "bool \<Rightarrow> (Options \<Rightarrow> Options) \<Rightarrow> 's \<Rightarrow> nat \<Rightarrow> Options \<Rightarrow> 's Engine" where
  "bab has_threads translate s sz opt =
     (if has_threads then
        (let to = translate opt in
         if threads to = 1 then Sequential_bab s sz to
         else Parallel_bab s sz to)
      else Sequential_bab s sz opt)"

fun is_sequential :: "'s Engine \<Rightarrow> bool" where
  "is_sequential (Sequential_bab s sz opt) = True"
| "is_sequential (Parallel_bab s sz opt) = False"

definition no_threads_opt :: Options where
  "no_threads_opt = \<lparr>threads = 0\<rparr>"

definition example_space :: space where
  "example_space =
     \<lparr>mm = \<lparr>cur = 64, subscriptions = 16, reused = []\<rparr>,
      bytes = (\<lambda>a. word_of_nat a), slots = (\<lambda>a. 0),
      active = 1008, queue = 1001, n_sub = 0, b_status = 2000,
      lnk_next = (\<lambda>a. a), lnk_prev = (\<lambda>a. a), u_med = (\<lambda>a. 0)\<rparr>"

section \<open>Space-level allocation\<close>

text \<open>
  \<open>Space::ralloc\<close>, \<open>Space::rfree\<close> and \<open>Space::rrealloc\<close>. Sizes are \<open>size_t\<close>,
  a 64-bit unsigned integer whose subtraction wraps around. \<open>memcpy\<close> is the C library
  function, copying byte after byte from the lowest address.
\<close>

definition ralloc :: "space \<Rightarrow> nat \<Rightarrow> addr \<times> space" where
  "ralloc home s = (let (p, m) = mm_alloc (mm home) s in (p, home\<lparr>mm := m\<rparr>))"

definition rfree :: "space \<Rightarrow> addr \<Rightarrow> nat \<Rightarrow> space" where
  "rfree home p s = home\<lparr>mm := mm_reuse (mm home) p s\<rparr>"

primrec memcpy :: "(addr \<Rightarrow> 'a) \<Rightarrow> addr \<Rightarrow> addr \<Rightarrow> nat \<Rightarrow> (addr \<Rightarrow> 'a)" where
  "memcpy f d s 0 = f"
| "memcpy f d s (Suc n) = (let g = memcpy f d s n in g(d + n := g (s + n)))"

definition rrealloc :: "space \<Rightarrow> addr \<Rightarrow> 64 word \<Rightarrow> 64 word \<Rightarrow> addr \<times> space" where
  "rrealloc home b n m =
     (if n < m then
        (let (p, h1) = ralloc home (unat m);
             h2 = h1\<lparr>bytes := memcpy (bytes h1) p b (unat n)\<rparr>;
             h3 = rfree h2 b (unat n)
         in (p, h3))
      else (b, rfree home (b + unat m) (unat (m - n))))"

text \<open>
  The typed routines \<open>Space::alloc<ActorLink*>(n)\<close> and \<open>Space::free<ActorLink*>(b,n)\<close>
  for arrays of subscription slots. \<open>alloc\<close> runs the default constructor on each of the
  \<open>n\<close> slots, which for a pointer is the null pointer; the destructor that \<open>free\<close> runs
  on a pointer does nothing. The size passed on is \<open>sizeof(ActorLink*) * n\<close>, which is
  \<open>n\<close> in the unit of slots.
\<close>

primrec init_slots :: "(addr \<Rightarrow> addr) \<Rightarrow> addr \<Rightarrow> nat \<Rightarrow> (addr \<Rightarrow> addr)" where
  "init_slots f p 0 = f"
| "init_slots f p (Suc i) = init_slots (f(p + i := NULL)) p i"

definition alloc :: "space \<Rightarrow> nat \<Rightarrow> addr \<times> space" where
  "alloc home n =
     (let (p, h1) = ralloc home n
      in (p, h1\<lparr>slots := init_slots (slots h1) p n\<rparr>))"

definition free :: "space \<Rightarrow> addr \<Rightarrow> nat \<Rightarrow> space" where
  "free home b n = rfree home b n"

section \<open>Actor links and the propagator queues\<close>




section \<open>Variable implementations\<close>

text \<open>
  The configuration class \<open>VIC\<close> a variable implementation is instantiated with: the
  constants \<open>idx_c\<close>, \<open>pc_max\<close> and \<open>free_bits\<close>, and the static function
  \<open>med_update(med, me)\<close>, which returns whether the delta changed together with the
  delta it leaves in its reference argument.
\<close>

record VIC =
  idx_c :: nat
  pc_max :: PropCond
  free_bits :: nat
  med_update :: "ModEventDelta \<Rightarrow> ModEvent \<Rightarrow> bool \<times> ModEventDelta"

text \<open>
  \<open>class VarImp<VIC>\<close>. \<open>base\<close> is the address of the subscription array,
  \<open>entries\<close> and \<open>free_and_bits\<close> are the two \<open>unsigned int\<close> counters, and \<open>idx\<close> is
  the array \<open>u.idx[pc_max+1]\<close>: \<open>idx ! k\<close> is \<open>u.idx[k]\<close>, which the source reaches as
  \<open>idx(k+1)\<close>. The counters and the boundaries are \<open>unsigned int\<close>: natural numbers
  below \<open>2^32\<close>, with the wrap-around of every operation on them written out by \<open>u32\<close>.
  Pointers are not bounded. The assertions on the range of a propagation condition are
  hypotheses of the theorems.
\<close>

record VarImp =
  base :: addr
  entries :: nat
  free_and_bits :: nat
  idx :: "nat list"

definition actor :: "VarImp \<Rightarrow> PropCond \<Rightarrow> addr" where
  "actor v pc = (if pc = 0 then base v else base v + idx v ! (pc - 1))"

definition actorNonZero :: "VarImp \<Rightarrow> PropCond \<Rightarrow> addr" where
  "actorNonZero v pc = base v + idx v ! (pc - 1)"


definition degree :: "VarImp \<Rightarrow> nat" where
  "degree v = entries v"


text \<open>
  \<open>VarImp::resize\<close>. \<open>Heap::copy<ActorLink*>\<close> (\<open>gecode/support/heap.hpp\<close>, not among
  the sources) copies \<open>n\<close> slots as \<open>memcpy\<close> does. \<open>n\<close> and \<open>m\<close> are \<open>unsigned int\<close>,
  and so are the sum \<open>n+4\<close>, the product \<open>(n+1)*3\<close>, the difference \<open>m-n\<close> and what is
  added to \<open>free_and_bits\<close>.
\<close>

definition resize :: "VIC \<Rightarrow> space \<Rightarrow> VarImp \<Rightarrow> space \<times> VarImp" where
  "resize vic home v =
     (if base v = NULL then
        (let v1 = v\<lparr>free_and_bits :=
                      u32 (free_and_bits v + u32 (push_bit (free_bits vic) 4))\<rparr>;
             (p, h1) = alloc home 4
         in (h1, v1\<lparr>base := p\<rparr>))
      else
        (let n = degree v;
             s = subscriptions (mm home);
             m = (if s \<le> base v \<and> base v < s + n_sub home then u32 (n + 4)
                  else drop_bit 1 (u32 (u32 (n + 1) * 3)));
             (prop, h1) = alloc home m;
             v1 = v\<lparr>free_and_bits :=
                      u32 (free_and_bits v
                           + u32 (push_bit (free_bits vic) (u32 (m + 2 ^ 32 - n))))\<rparr>;
             h2 = h1\<lparr>slots := memcpy (slots h1) prop (base v) n\<rparr>;
             h3 = free h2 (base v) n
         in (h3, v1\<lparr>base := prop\<rparr>)))"




text \<open>
  \<open>VarImp::enter(home, a)\<close> for an advisor.
\<close>

definition enter_advisor :: "VIC \<Rightarrow> space \<Rightarrow> VarImp \<Rightarrow> addr \<Rightarrow> space \<times> VarImp" where
  "enter_advisor vic home v a =
     (let h1 = home\<lparr>n_sub := u32 (n_sub home + 1)\<rparr>;
          (h2, v1) = (if drop_bit (free_bits vic) (free_and_bits v) = 0
                      then resize vic h1 v else (h1, v));
          v2 = v1\<lparr>free_and_bits :=
                    u32 (free_and_bits v1 + 2 ^ 32 - u32 (push_bit (free_bits vic) 1))\<rparr>;
          m1 = (slots h2)(base v2 + entries v2 := slots h2 (actorNonZero v2 (pc_max vic + 1)));
          v3 = v2\<lparr>entries := u32 (entries v2 + 1)\<rparr>;
          m2 = m1(actorNonZero v3 (pc_max vic + 1) := a)
      in (h2\<lparr>slots := m2\<rparr>, v3))"


definition subscribe_advisor :: "VIC \<Rightarrow> space \<Rightarrow> VarImp \<Rightarrow> addr \<Rightarrow> bool \<Rightarrow> space \<times> VarImp" where
  "subscribe_advisor vic home v a assigned =
     (if \<not> assigned then enter_advisor vic home v a else (home, v))"

text \<open>
  \<open>VarImp::remove\<close>. Without \<open>GECODE_AUDIT\<close> the search for the actor is the loop
  \<open>while (*f != a) f++\<close>, which has no bound: \<open>find_actor\<close> returns \<open>None\<close> when it
  runs forever. \<open>remove_shift pc_max j\<close> is the loop
  \<open>for (j = pc+1; j < pc_max+1; j++)\<close> started at \<open>j\<close>.
\<close>

partial_function (option) find_actor :: "(addr \<Rightarrow> addr) \<Rightarrow> addr \<Rightarrow> addr \<Rightarrow> addr option" where
  "find_actor m f a = (if m f \<noteq> a then find_actor m (f + 1) a else Some f)"

declare find_actor.simps [code]

function remove_shift :: "PropCond \<Rightarrow> nat \<Rightarrow> (addr \<Rightarrow> addr) \<times> VarImp \<Rightarrow> (addr \<Rightarrow> addr) \<times> VarImp" where
  "remove_shift pcm j (m, v) =
     (if j < pcm + 1 then
        remove_shift pcm (j + 1)
          (m(actorNonZero v j - 1 := m (actorNonZero v (j + 1) - 1)),
           v\<lparr>idx := (idx v)[j - 1 := u32 (idx v ! (j - 1) + 2 ^ 32 - 1)]\<rparr>)
      else (m, v))"
  by pat_completeness auto
termination
  by (relation "measure (\<lambda>(pcm, j, st). pcm + 1 - j)") auto

declare remove_shift.simps [simp del]

definition remove :: "VIC \<Rightarrow> space \<Rightarrow> VarImp \<Rightarrow> addr \<Rightarrow> PropCond \<Rightarrow> (space \<times> VarImp) option" where
  "remove vic home v p pc =
     (case find_actor (slots home) (actor v pc) p of
        None \<Rightarrow> None
      | Some f \<Rightarrow>
          (let m1 = (slots home)(f := slots home (actorNonZero v (pc + 1) - 1));
               (m2, v1) = remove_shift (pc_max vic) (pc + 1) (m1, v);
               m3 = m2(actorNonZero v1 (pc_max vic + 1) - 1 :=
                         m2 (base v1 + u32 (entries v1 + 2 ^ 32 - 1)));
               v2 = v1\<lparr>idx := (idx v1)[pc_max vic := u32 (idx v1 ! pc_max vic + 2 ^ 32 - 1)]\<rparr>;
               v3 = v2\<lparr>entries := u32 (entries v2 + 2 ^ 32 - 1)\<rparr>;
               v4 = v3\<lparr>free_and_bits :=
                         u32 (free_and_bits v3 + u32 (push_bit (free_bits vic) 1))\<rparr>
           in Some (home\<lparr>slots := m3, n_sub := u32 (n_sub home + 2 ^ 32 - 1)\<rparr>, v4)))"

definition remove_advisor :: "VIC \<Rightarrow> space \<Rightarrow> VarImp \<Rightarrow> addr \<Rightarrow> (space \<times> VarImp) option" where
  "remove_advisor vic home v a =
     (case find_actor (slots home) (actorNonZero v (pc_max vic + 1)) a of
        None \<Rightarrow> None
      | Some f \<Rightarrow>
          (let v1 = v\<lparr>entries := u32 (entries v + 2 ^ 32 - 1)\<rparr>;
               m1 = (slots home)(f := slots home (base v1 + entries v1));
               v2 = v1\<lparr>free_and_bits :=
                         u32 (free_and_bits v1 + u32 (push_bit (free_bits vic) 1))\<rparr>
           in Some (home\<lparr>slots := m1, n_sub := u32 (n_sub home + 2 ^ 32 - 1)\<rparr>, v2)))"

definition cancel ::
  "VIC \<Rightarrow> space \<Rightarrow> VarImp \<Rightarrow> addr \<Rightarrow> PropCond \<Rightarrow> bool \<Rightarrow> (space \<times> VarImp) option" where
  "cancel vic home v p pc assigned =
     (if \<not> assigned then remove vic home v p pc else Some (home, v))"

definition cancel_advisor :: "VIC \<Rightarrow> space \<Rightarrow> VarImp \<Rightarrow> addr \<Rightarrow> bool \<Rightarrow> (space \<times> VarImp) option" where
  "cancel_advisor vic home v a assigned =
     (if \<not> assigned then remove_advisor vic home v a else Some (home, v))"

text \<open>
  The slices of the subscription array: \<open>bucket m v pc\<close> is the list of the subscribers
  with propagation condition \<open>pc\<close>, from \<open>actor(pc)\<close> up to \<open>actorNonZero(pc+1)\<close>, and
  \<open>advisors m v\<close> is the final slice, from \<open>actorNonZero(pc_max+1)\<close> up to
  \<open>base + entries\<close>.
\<close>

definition bucket :: "(addr \<Rightarrow> addr) \<Rightarrow> VarImp \<Rightarrow> PropCond \<Rightarrow> addr list" where
  "bucket m v pc = map m [actor v pc ..< actorNonZero v (pc + 1)]"

definition advisors :: "VIC \<Rightarrow> (addr \<Rightarrow> addr) \<Rightarrow> VarImp \<Rightarrow> addr list" where
  "advisors vic m v = map m [actorNonZero v (pc_max vic + 1) ..< base v + entries v]"


text \<open>
  An example configuration with three propagation conditions and two free bits, whose
  \<open>med_update\<close> keeps the maximum of the delta and the event.
\<close>

definition example_vic :: VIC where
  "example_vic =
     \<lparr>idx_c = 0, pc_max = 2, free_bits = 2,
      med_update = (\<lambda>d me. (d < me, max d me))\<rparr>"

section \<open>Specification predicates for the subscription array\<close>














text \<open>
  Example states: a variable implementation whose four-slot array at address 64 is full,
  in a space whose arena has handed out the addresses below 68 and whose subscription
  region starts at address 16.
\<close>

definition example_var :: VarImp where
  "example_var = \<lparr>base = 64, entries = 4, free_and_bits = 0, idx = [1, 3, 4]\<rparr>"

definition example_home :: space where
  "example_home =
     example_space\<lparr>mm := \<lparr>cur = 68, subscriptions = 16, reused = []\<rparr>,
                   slots := (\<lambda>a. if a = 64 then 102 else if a = 65 then 104
                                 else if a = 66 then 101 else if a = 67 then 103 else 0),
                   n_sub := 4\<rparr>"


section \<open>Specification predicates for cancelling a subscription\<close>


definition rotate_back :: "'a list \<Rightarrow> 'a list" where
  "rotate_back xs = (if xs = [] then [] else last xs # butlast xs)"




section \<open>Cloning a variable implementation\<close>

text \<open>
  Modelled from the spec: the functions \<open>Support::mark\<close>, \<open>Support::marked\<close> and
  \<open>Support::unmark\<close> (\<open>gecode/support/marked-pointer.hpp\<close> is not among the sources).
  The specification describes the forwarding pointer as the pointer to the clone with its
  low bit marked, \<open>copied()\<close> as the test of that bit and \<open>forward()\<close> as the untagged
  pointer.
\<close>

definition mark :: "addr \<Rightarrow> addr" where
  "mark p = p OR 1"

definition marked :: "addr \<Rightarrow> bool" where
  "marked p \<longleftrightarrow> p AND 1 \<noteq> 0"

definition unmark :: "addr \<Rightarrow> addr" where
  "unmark p = p - (p AND 1)"

definition copied :: "VarImp \<Rightarrow> bool" where
  "copied v \<longleftrightarrow> marked (base v)"

definition forward :: "VarImp \<Rightarrow> addr" where
  "forward v = unmark (base v)"

text \<open>
  The union \<open>u\<close> of a variable implementation holds either the boundaries \<open>idx\<close> or
  the pointer \<open>next\<close>. Storing a pointer in \<open>u.next\<close> overwrites the \<open>unsigned int\<close>
  cells the pointer lies over: \<open>idx[0]\<close> alone where a pointer is as wide as an
  \<open>unsigned int\<close>, \<open>idx[0]\<close> and, if there is one, \<open>idx[1]\<close> where a pointer is
  twice as wide (\<open>wide\<close>; the low half is taken to come first). The part of a wide pointer
  that lies beyond \<open>idx\<close> is not kept, since no function below reads \<open>u.next\<close>.
\<close>

definition set_next :: "bool \<Rightarrow> addr \<Rightarrow> nat list \<Rightarrow> nat list" where
  "set_next wide p ix =
     (if wide then (ix[0 := p mod 2 ^ 32])[1 := p div 2 ^ 32 mod 2 ^ 32]
      else ix[0 := p mod 2 ^ 32])"

text \<open>
  The part \<open>pc.c\<close> of a space that is in cloning mode: the heads of the lists of
  originals that await their reset, one for each kind of variable and one for the
  variable implementations without an array.
\<close>

record CloneBlock =
  vars_u :: "nat \<Rightarrow> addr"
  vars_noidx :: addr

text \<open>
  The constructor for cloning, \<open>VarImp(Space& home, bool share, VarImp& x)\<close>: \<open>this\<close>
  is the address at which the clone is constructed and \<open>xa\<close> the address of the original
  \<open>x\<close>. The result is the cloning block, the clone and the original as the constructor
  leaves them; the assertion that an original without an array has no subscription is a
  branch of its own.
\<close>

definition VarImp_copy ::
  "VIC \<Rightarrow> bool \<Rightarrow> CloneBlock \<Rightarrow> addr \<Rightarrow> addr \<Rightarrow> VarImp
     \<Rightarrow> error + CloneBlock \<times> VarImp \<times> VarImp" where
  "VarImp_copy vic wide c this xa x =
     (let fab = free_and_bits x AND (push_bit (free_bits vic) 1 - 1)
      in if base x = NULL \<and> degree x \<noteq> 0 then Inl AssertionFailed
         else
           (let reg = (if base x = NULL then vars_noidx c else vars_u c (idx_c vic));
                clone = \<lparr>base = base x, entries = entries x, free_and_bits = fab,
                         idx = map (\<lambda>k. idx x ! k) [0 ..< pc_max vic + 1]\<rparr>;
                x1 = x\<lparr>base := mark this\<rparr>;
                x2 = x1\<lparr>idx := set_next wide reg (idx x1)\<rparr>;
                c1 = (if base x = NULL then c\<lparr>vars_noidx := xa\<rparr>
                      else c\<lparr>vars_u := (vars_u c)(idx_c vic := xa)\<rparr>)
            in Inr (c1, clone, x2)))"

text \<open>
  \<open>VarImp::update(x, sub)\<close>, called on the clone. \<open>update_by4\<close> is the loop
  \<open>while (n >= 4)\<close> that sets four subscriptions at a time from the forwarding pointers
  \<open>prev()\<close> of the subscribed actors; the two conditionals that follow it set the
  remaining ones. The result is the slot memory, the clone, the original and the cursor
  \<open>sub\<close>.
\<close>

function update_by4 ::
  "(addr \<Rightarrow> addr) \<Rightarrow> (addr \<Rightarrow> addr) \<times> addr \<times> addr \<times> nat \<Rightarrow> (addr \<Rightarrow> addr) \<times> addr \<times> addr \<times> nat" where
  "update_by4 pv (m, t, f, n) =
     (if n \<ge> 4 then
        (let m1 = m(t := pv (m f));
             m2 = m1(t + 1 := pv (m1 (f + 1)));
             m3 = m2(t + 2 := pv (m2 (f + 2)));
             m4 = m3(t + 3 := pv (m3 (f + 3)))
         in update_by4 pv (m4, t + 4, f + 4, n - 4))
      else (m, t, f, n))"
  by pat_completeness auto
termination
  by (relation "measure (\<lambda>(pv, m, t, f, n). n)") auto

declare update_by4.simps [simp del]

definition update ::
  "VIC \<Rightarrow> bool \<Rightarrow> space \<Rightarrow> VarImp \<Rightarrow> VarImp \<Rightarrow> addr \<Rightarrow> space \<times> VarImp \<times> VarImp \<times> addr" where
  "update vic wide home this x sub =
     (let x1 = x\<lparr>base := base this\<rparr>;
          x2 = x1\<lparr>idx := (idx x1)[0 := idx this ! 0]\<rparr>;
          x3 = (if pc_max vic > 0 \<and> wide then x2\<lparr>idx := (idx x2)[1 := idx this ! 1]\<rparr> else x2);
          f0 = base x3;
          n0 = degree x3;
          t0 = sub;
          this1 = this\<lparr>base := t0\<rparr>;
          (m1, t1, f1, n1) = update_by4 (lnk_prev home) (slots home, t0, f0, n0);
          (m2, t2, f2, n2) =
             (if n1 \<ge> 2 then
                (let ma = m1(t1 := lnk_prev home (m1 f1));
                     mb = ma(t1 + 1 := lnk_prev home (ma (f1 + 1)))
                 in (mb, t1 + 2, f1 + 2, n1 - 2))
              else (m1, t1, f1, n1));
          m3 = (if n2 > 0 then m2(t2 := lnk_prev home (m2 f2)) else m2)
      in (home\<lparr>slots := m3\<rparr>, this1, x3, sub + n0))"

text \<open>
  An example: the variable implementation \<open>example_var\<close>, at address 4000, is cloned
  into a clone at address 5000.
\<close>

definition example_clone_block :: CloneBlock where
  "example_clone_block = \<lparr>vars_u = (\<lambda>i. NULL), vars_noidx = NULL\<rparr>"

section \<open>Advisors\<close>














text \<open>
  What the specification says of \<open>advise\<close>, as a recursion over the list of the subscribed
  advisors, first to last: the advise function of the advisor's propagator is invoked;
  on \<open>ES_FAILED\<close> the result is \<open>false\<close> and no further advisor is visited; an advisor
  that is subsumed is marked as disposed; on \<open>ES_NOFIX\<close> the propagator is scheduled with
  the event; then the next advisor of the list is visited. Beside the result, the space and
  the data of the propagators, \<open>advise_spec\<close> returns the list of the invocations made,
  each with its advisor, its propagator, what the invocation did, and the space before and
  after it.
\<close>

definition mark_disposed :: "space \<Rightarrow> addr \<Rightarrow> space" where
  "mark_disposed home a =
     (let h1 = home\<lparr>lnk_prev := (lnk_prev home)(a := NULL)\<rparr>;
          n = lnk_next h1 a
      in if n \<noteq> NULL \<and> lnk_prev h1 n = NULL
         then h1\<lparr>lnk_next := (lnk_next h1)(a := lnk_next h1 n)\<rparr>
         else h1)"











section \<open>Shared handles\<close>

text \<open>
  The objects and the handles of the classes \<open>CopiedHandle\<close> and \<open>SharedHandle\<close>, each
  at its address. Of an object there are the counter \<open>use_cnt\<close>, an \<open>unsigned int\<close> of 32
  bits, and the pointers \<open>fwd\<close> and \<open>next\<close>; of a handle there is the pointer \<open>o\<close>.
  \<open>allocated\<close> is the set of the objects between \<open>operator new\<close> and \<open>operator delete\<close>,
  \<open>handles\<close> the set of the handles between their construction and their destruction,
  and \<open>c_copied\<close> is the list head \<open>home.pc.c.copied\<close>.
\<close>

record handle_heap =
  use_cnt :: "addr \<Rightarrow> nat"
  fwd :: "addr \<Rightarrow> addr"
  o_next :: "addr \<Rightarrow> addr"
  allocated :: "addr set"
  obj :: "addr \<Rightarrow> addr"
  handles :: "addr set"
  c_copied :: addr

text \<open>
  \<open>new\<close> of a \<open>SharedHandle::Object\<close> at the address \<open>x\<close> that the heap returns, with the
  constructors \<open>CopiedHandle::Object::Object\<close> and \<open>SharedHandle::Object::Object\<close>; and
  \<open>delete\<close>, whose destructor asserts that the counter is zero.
\<close>

definition Object_new :: "handle_heap \<Rightarrow> addr \<Rightarrow> handle_heap" where
  "Object_new s x =
     s\<lparr>fwd := (fwd s)(x := NULL), use_cnt := (use_cnt s)(x := 0),
       allocated := insert x (allocated s)\<rparr>"

definition Object_delete :: "handle_heap \<Rightarrow> addr \<Rightarrow> error + handle_heap" where
  "Object_delete s x =
     (if use_cnt s x = 0 then Inr (s\<lparr>allocated := allocated s - {x}\<rparr>)
      else Inl AssertionFailed)"

text \<open>
  \<open>SharedHandle::subscribe\<close> and \<open>SharedHandle::cancel\<close> of the handle at \<open>h\<close>. The
  increment and the decrement of the counter wrap around.
\<close>

definition subscribe_handle :: "handle_heap \<Rightarrow> addr \<Rightarrow> handle_heap" where
  "subscribe_handle s h =
     (if obj s h \<noteq> NULL
      then s\<lparr>use_cnt := (use_cnt s)(obj s h := (use_cnt s (obj s h) + 1) mod 2 ^ 32)\<rparr>
      else s)"

definition cancel_handle :: "handle_heap \<Rightarrow> addr \<Rightarrow> error + handle_heap" where
  "cancel_handle s h =
     (let x = obj s h;
          r = (if x \<noteq> NULL then
                 (let c = (use_cnt s x + 2 ^ 32 - 1) mod 2 ^ 32;
                      s1 = s\<lparr>use_cnt := (use_cnt s)(x := c)\<rparr>
                  in if c = 0 then Object_delete s1 x else Inr s1)
               else Inr s)
      in case r of
           Inl e \<Rightarrow> Inl e
         | Inr s2 \<Rightarrow> Inr (s2\<lparr>obj := (obj s2)(h := NULL)\<rparr>))"

text \<open>
  The three constructors of a shared handle at the address \<open>h\<close>, the assignment
  operator, the destructor, and \<open>CopiedHandle::update\<close> and \<open>SharedHandle::update\<close>.
  The pure virtual \<open>Object::copy\<close> is the parameter \<open>copy\<close>: it gives the address of the
  copy, an object that it creates with \<open>new\<close>.
\<close>

definition SharedHandle_void :: "handle_heap \<Rightarrow> addr \<Rightarrow> handle_heap" where
  "SharedHandle_void s h = s\<lparr>obj := (obj s)(h := NULL), handles := insert h (handles s)\<rparr>"

definition SharedHandle_object :: "handle_heap \<Rightarrow> addr \<Rightarrow> addr \<Rightarrow> handle_heap" where
  "SharedHandle_object s h so =
     subscribe_handle (s\<lparr>obj := (obj s)(h := so), handles := insert h (handles s)\<rparr>) h"

definition SharedHandle_copy :: "handle_heap \<Rightarrow> addr \<Rightarrow> addr \<Rightarrow> handle_heap" where
  "SharedHandle_copy s h sh =
     subscribe_handle (s\<lparr>obj := (obj s)(h := obj s sh), handles := insert h (handles s)\<rparr>) h"

definition assign_handle :: "handle_heap \<Rightarrow> addr \<Rightarrow> addr \<Rightarrow> error + handle_heap" where
  "assign_handle s h sh =
     (if sh \<noteq> h then
        (case cancel_handle s h of
           Inl e \<Rightarrow> Inl e
         | Inr s1 \<Rightarrow> Inr (subscribe_handle (s1\<lparr>obj := (obj s1)(h := obj s1 sh)\<rparr>) h))
      else Inr s)"

definition destroy_handle :: "handle_heap \<Rightarrow> addr \<Rightarrow> error + handle_heap" where
  "destroy_handle s h =
     (case cancel_handle s h of
        Inl e \<Rightarrow> Inl e
      | Inr s1 \<Rightarrow> Inr (s1\<lparr>handles := handles s1 - {h}\<rparr>))"

definition CopiedHandle_update ::
  "(addr \<Rightarrow> addr) \<Rightarrow> handle_heap \<Rightarrow> addr \<Rightarrow> addr \<Rightarrow> handle_heap" where
  "CopiedHandle_update copy s h sh =
     (if obj s sh = NULL then s\<lparr>obj := (obj s)(h := NULL)\<rparr>
      else if fwd s (obj s sh) \<noteq> NULL then s\<lparr>obj := (obj s)(h := fwd s (obj s sh))\<rparr>
      else
        (let c = copy (obj s sh);
             s1 = Object_new s c;
             s2 = s1\<lparr>obj := (obj s1)(h := c)\<rparr>;
             s3 = s2\<lparr>fwd := (fwd s2)(obj s2 sh := obj s2 h)\<rparr>;
             s4 = s3\<lparr>o_next := (o_next s3)(obj s3 sh := c_copied s3)\<rparr>
         in s4\<lparr>c_copied := obj s4 sh\<rparr>))"

definition update_handle ::
  "(addr \<Rightarrow> addr) \<Rightarrow> handle_heap \<Rightarrow> addr \<Rightarrow> bool \<Rightarrow> addr \<Rightarrow> handle_heap" where
  "update_handle copy s h share sh =
     (if obj s sh = NULL then s\<lparr>obj := (obj s)(h := NULL)\<rparr>
      else if share then subscribe_handle (s\<lparr>obj := (obj s)(h := obj s sh)\<rparr>) h
      else subscribe_handle (CopiedHandle_update copy s h sh) h)"

text \<open>
  The operations on shared handles and their objects, and a run of a list of them, which
  ends at the first failed assertion.
\<close>

datatype handle_op =
    New_object addr
  | Construct addr
  | Construct_from addr addr
  | Copy_construct addr addr
  | Assign addr addr
  | Update_shared addr addr
  | Destroy addr

definition exec_op :: "(addr \<Rightarrow> addr) \<Rightarrow> handle_heap \<Rightarrow> handle_op \<Rightarrow> error + handle_heap" where
  "exec_op copy s op =
     (case op of
        New_object x \<Rightarrow> Inr (Object_new s x)
      | Construct h \<Rightarrow> Inr (SharedHandle_void s h)
      | Construct_from h so \<Rightarrow> Inr (SharedHandle_object s h so)
      | Copy_construct h sh \<Rightarrow> Inr (SharedHandle_copy s h sh)
      | Assign h sh \<Rightarrow> assign_handle s h sh
      | Update_shared h sh \<Rightarrow> Inr (update_handle copy s h True sh)
      | Destroy h \<Rightarrow> destroy_handle s h)"

fun run_ops :: "(addr \<Rightarrow> addr) \<Rightarrow> handle_heap \<Rightarrow> handle_op list \<Rightarrow> error + handle_heap" where
  "run_ops copy s [] = Inr s"
| "run_ops copy s (op # ops) =
     (case exec_op copy s op of Inl e \<Rightarrow> Inl e | Inr s1 \<Rightarrow> run_ops copy s1 ops)"

text \<open>
  The rules of the language on the lifetime of objects: an object is created at an
  address that holds none, a handle is constructed at an address that holds none, from an
  object that exists or from \<open>NULL\<close>, and every other operation is on handles that exist.
  \<open>fresh_update\<close> is the further condition that \<open>update\<close> is called on a handle that
  holds no object, as it is on the handle that a cloning constructor has just
  constructed.
\<close>

definition lifetime_ok :: "handle_heap \<Rightarrow> handle_op \<Rightarrow> bool" where
  "lifetime_ok s op =
     (case op of
        New_object x \<Rightarrow> x \<noteq> NULL \<and> x \<notin> allocated s
      | Construct h \<Rightarrow> h \<notin> handles s
      | Construct_from h so \<Rightarrow> h \<notin> handles s \<and> (so = NULL \<or> so \<in> allocated s)
      | Copy_construct h sh \<Rightarrow> h \<notin> handles s \<and> sh \<in> handles s
      | Assign h sh \<Rightarrow> h \<in> handles s \<and> sh \<in> handles s
      | Update_shared h sh \<Rightarrow> h \<in> handles s \<and> sh \<in> handles s
      | Destroy h \<Rightarrow> h \<in> handles s)"

definition fresh_update :: "handle_heap \<Rightarrow> handle_op \<Rightarrow> bool" where
  "fresh_update s op = (case op of Update_shared h sh \<Rightarrow> obj s h = NULL | _ \<Rightarrow> True)"

fun run_ok ::
  "(handle_heap \<Rightarrow> handle_op \<Rightarrow> bool) \<Rightarrow> (addr \<Rightarrow> addr) \<Rightarrow> handle_heap \<Rightarrow> handle_op list \<Rightarrow> bool" where
  "run_ok ok copy s [] = True"
| "run_ok ok copy s (op # ops) =
     (ok s op \<and> (case exec_op copy s op of Inl e \<Rightarrow> False | Inr s1 \<Rightarrow> run_ok ok copy s1 ops))"

text \<open>
  The handles that refer to an object, the object that an operation makes a handle
  release, and the invariant of reference counting: the handles are finitely many, every
  handle holds \<open>NULL\<close> or an object that exists, and the counter of every object that
  exists is the number of the handles that refer to it.
\<close>

definition refs :: "handle_heap \<Rightarrow> addr \<Rightarrow> addr set" where
  "refs s x = {h \<in> handles s. obj s h = x}"

definition released :: "handle_heap \<Rightarrow> handle_op \<Rightarrow> addr" where
  "released s op =
     (case op of
        Assign h sh \<Rightarrow> (if sh \<noteq> h then obj s h else NULL)
      | Destroy h \<Rightarrow> obj s h
      | _ \<Rightarrow> NULL)"

definition permitted :: "handle_heap \<Rightarrow> handle_op \<Rightarrow> bool" where
  "permitted s op \<longleftrightarrow> lifetime_ok s op \<and> fresh_update s op"

definition counted :: "handle_heap \<Rightarrow> bool" where
  "counted s \<longleftrightarrow>
     finite (handles s) \<and> NULL \<notin> allocated s \<and>
     (\<forall>h\<in>handles s. obj s h = NULL \<or> obj s h \<in> allocated s) \<and>
     (\<forall>x\<in>allocated s. use_cnt s x = card (refs s x))"

text \<open>
  Examples: a heap with no object and no handle, a run in which \<open>update\<close> is called on a
  handle that holds an object, and a run in which three handles come to share an object
  and release it one after the other.
\<close>

definition empty_heap :: handle_heap where
  "empty_heap =
     \<lparr>use_cnt = (\<lambda>x. 0), fwd = (\<lambda>x. NULL), o_next = (\<lambda>x. NULL), allocated = {},
      obj = (\<lambda>h. NULL), handles = {}, c_copied = NULL\<rparr>"

definition update_over_object :: "handle_op list" where
  "update_over_object =
     [New_object 500, Construct_from 10 500, Copy_construct 20 10, Update_shared 10 20,
      Destroy 10, Destroy 20]"

definition share_and_release :: "handle_op list" where
  "share_and_release =
     [New_object 500, Construct_from 10 500, Copy_construct 20 10, Construct 30,
      Update_shared 30 10, Assign 20 20, Destroy 10, Destroy 30, Destroy 20]"

section \<open>Properties of the space status tests\<close>

text \<open>
  C10. A failed space is stable: failure is \<open>active = NULL\<close>, the stability test is
  \<open>active < &queue[0]\<close>, and the address of the member \<open>queue[0]\<close> of an existing space
  is not \<open>NULL\<close>. So after \<open>fail()\<close> both \<open>failed()\<close> and \<open>stable()\<close> return true.
\<close>

theorem failed_implies_stable:
  assumes "queue home \<noteq> NULL"
  shows "(failed home \<longrightarrow> stable_space home)
       \<and> failed (fail home) \<and> stable_space (fail home)"
  using assms by (simp add: failed_def stable_space_def fail_def)

theorem failed_implies_stable_witness:
  "queue example_space \<noteq> NULL
   \<and> queue (fail example_space) \<noteq> NULL
   \<and> failed (fail example_space) \<and> stable_space (fail example_space)"
  using failed_implies_stable [of example_space] failed_implies_stable [of "fail example_space"]
  by (simp add: example_space_def fail_def)

text \<open>
  C3, as stated: \<open>description()\<close> signals \<open>SpaceNotStable\<close> whenever the space is failed.
  It does not: on the failed space \<open>fail example_space\<close> the stability test succeeds and
  the call is delegated to the branching.
\<close>

theorem description_failed_counterexample:
  "failed (fail example_space)
   \<and> description (\<lambda>b home. b) (fail example_space) \<noteq> Inl SpaceNotStable
   \<and> description (\<lambda>b home. b) (fail example_space) = Inr (b_status example_space)"
  by (simp add: description_def failed_def stable_space_def fail_def example_space_def)

text \<open>
  C3, amended: \<open>description()\<close> signals \<open>SpaceNotStable\<close> exactly when the space is not
  stable, that is when \<open>active\<close> is not below \<open>&queue[0]\<close>; on every stable space, which
  includes every failed space, it returns what \<open>b_status->description(*this)\<close> returns.
\<close>

theorem description_not_stable_iff:
  "(description bdesc home = Inl SpaceNotStable \<longleftrightarrow> \<not> stable_space home)
   \<and> (stable_space home \<longrightarrow> description bdesc home = Inr (bdesc (b_status home) home))
   \<and> (failed home \<and> queue home \<noteq> NULL
        \<longrightarrow> description bdesc home = Inr (bdesc (b_status home) home))"
  by (simp add: description_def failed_def stable_space_def)

theorem description_not_stable_iff_witness:
  "\<not> stable_space example_space
   \<and> description (\<lambda>b home. b) example_space = Inl SpaceNotStable
   \<and> stable_space (fail example_space)
   \<and> failed (fail example_space) \<and> queue (fail example_space) \<noteq> NULL
   \<and> description (\<lambda>b home. b) (fail example_space) = Inr 2000"
  using description_not_stable_iff [of "\<lambda>b home. b" example_space]
    description_not_stable_iff [of "\<lambda>b home. b" "fail example_space"]
  by (simp add: example_space_def fail_def failed_def stable_space_def)

section \<open>Properties of the search dispatch\<close>

text \<open>
  C4, as stated: a sequential engine whenever the translated threads setting is at most 1.
  With threading support and a translated setting of 0 the parallel engine is returned.
\<close>

theorem bab_threads_zero_counterexample:
  "threads (id no_threads_opt) \<le> 1
   \<and> \<not> is_sequential (bab True id example_space 0 no_threads_opt)
   \<and> bab True id example_space 0 no_threads_opt = Parallel_bab example_space 0 no_threads_opt"
  by (simp add: bab_def no_threads_opt_def)

text \<open>
  C4, amended: \<open>Search::bab(s, sz, o)\<close> returns the sequential engine exactly when
  threading support is unavailable or the translated threads setting equals 1, and the
  parallel engine for every other translated setting, in particular for every setting
  greater than 1, when threading support is available. With threading support the engine
  receives the translated options, without it the options as given.
\<close>

theorem bab_dispatch:
  "(is_sequential (bab has_threads translate s sz opt)
      \<longleftrightarrow> (if has_threads then threads (translate opt) = 1 else True))
   \<and> (has_threads \<and> 1 < threads (translate opt)
        \<longrightarrow> bab has_threads translate s sz opt = Parallel_bab s sz (translate opt))
   \<and> (has_threads \<and> threads (translate opt) = 1
        \<longrightarrow> bab has_threads translate s sz opt = Sequential_bab s sz (translate opt))
   \<and> (\<not> has_threads \<longrightarrow> bab has_threads translate s sz opt = Sequential_bab s sz opt)"
  by (simp add: bab_def Let_def)

theorem bab_dispatch_witness:
  "1 < threads (id \<lparr>threads = 4\<rparr>)
   \<and> bab True id example_space 0 \<lparr>threads = 4\<rparr> = Parallel_bab example_space 0 \<lparr>threads = 4\<rparr>
   \<and> threads (id \<lparr>threads = 1\<rparr>) = 1
   \<and> bab True id example_space 0 \<lparr>threads = 1\<rparr> = Sequential_bab example_space 0 \<lparr>threads = 1\<rparr>
   \<and> bab False id example_space 0 \<lparr>threads = 4\<rparr> = Sequential_bab example_space 0 \<lparr>threads = 4\<rparr>"
  using bab_dispatch [of True id example_space 0 "\<lparr>threads = 4\<rparr>"]
    bab_dispatch [of True id example_space 0 "\<lparr>threads = 1\<rparr>"]
    bab_dispatch [of False id example_space 0 "\<lparr>threads = 4\<rparr>"]
  by simp

section \<open>Properties of rrealloc\<close>

lemma memcpy_outside:
  "a < d \<or> d + n \<le> a \<Longrightarrow> memcpy f d s n a = f a"
  by (induction n) (auto simp: Let_def)

lemma memcpy_copies:
  "s + n \<le> d \<or> d + n \<le> s \<Longrightarrow> i < n \<Longrightarrow> memcpy f d s n (d + i) = f (s + i)"
proof (induction n)
  case 0
  then show ?case by simp
next
  case (Suc n)
  show ?case
  proof (cases "i = n")
    case True
    have "memcpy f d s n (s + n) = f (s + n)"
      using Suc.prems(1) by (intro memcpy_outside) auto
    with True show ?thesis by (simp add: Let_def)
  next
    case False
    with Suc.prems have "i < n" by simp
    moreover have "s + n \<le> d \<or> d + n \<le> s" using Suc.prems(1) by auto
    ultimately have "memcpy f d s n (d + i) = f (s + i)" by (rule Suc.IH [rotated])
    with False show ?thesis by (simp add: Let_def)
  qed
qed

text \<open>
  Growing (\<open>n < m\<close>): a fresh block of \<open>m\<close> bytes is allocated, the first \<open>n\<close> bytes of
  the old block are copied into it, the old block is given back with its size \<open>n\<close>, and
  the fresh block is returned. Stated for an old block that lies in the part of the arena
  already handed out.
\<close>

lemma rrealloc_grow:
  assumes "n < m" and "b + unat n \<le> cur (mm home)"
  shows "fst (rrealloc home b n m) = cur (mm home)"
    and "cur (mm (snd (rrealloc home b n m))) = cur (mm home) + unat m"
    and "reused (mm (snd (rrealloc home b n m))) = (b, unat n) # reused (mm home)"
    and "\<forall>i < unat n. bytes (snd (rrealloc home b n m)) (fst (rrealloc home b n m) + i)
                        = bytes home (b + i)"
  using assms
  by (simp_all add: rrealloc_def ralloc_def rfree_def mm_alloc_def mm_reuse_def Let_def
      memcpy_copies)

text \<open>
  Same size (\<open>m = n\<close>): the block itself is returned, an empty tail is given back and no
  byte changes.
\<close>

lemma rrealloc_same:
  "rrealloc home b n n = (b, rfree home (b + unat n) 0)"
  by (simp add: rrealloc_def)

text \<open>
  Shrinking (\<open>m < n\<close>): the block itself is returned and its bytes are untouched, but the
  size passed to \<open>rfree\<close> for the tail is \<open>m - n\<close> computed in \<open>size_t\<close>, which wraps
  around to \<open>2^64 - (n - m)\<close>.
\<close>

lemma rrealloc_shrink:
  assumes "m < n"
  shows "rrealloc home b n m
           = (b, rfree home (b + unat m) (2 ^ 64 - (unat n - unat m)))"
proof -
  have le: "unat m < unat n" using assms by (simp add: word_less_nat_alt)
  have bound: "unat n < 2 ^ 64" using unsigned_less [of n, where 'a = nat] by simp
  have "unat (m - n) = unat m + 2 ^ 64 - unat n"
    using le by (simp add: unat_sub_if')
  also have "\<dots> = 2 ^ 64 - (unat n - unat m)"
    using le bound by simp
  finally have sz: "unat (m - n) = 2 ^ 64 - (unat n - unat m)" .
  have "\<not> n < m" using assms by simp
  then show ?thesis unfolding rrealloc_def sz by simp
qed

text \<open>
  C2, at the failing input: shrinking the 8-byte block at address 32 to 4 bytes. The claim
  has the trailing \<open>n - m = 4\<close> bytes from address 36 given back; the code gives back the
  range at address 36 with the size \<open>m - n = 18446744073709551612\<close>.
\<close>

theorem rrealloc_shrink_frees_wrapped_size:
  "fst (rrealloc example_space 32 8 4) = 32
   \<and> reused (mm (snd (rrealloc example_space 32 8 4))) = [(36, 18446744073709551612)]
   \<and> reused (mm (snd (rrealloc example_space 32 8 4))) \<noteq> [(36, 4)]
   \<and> bytes (snd (rrealloc example_space 32 8 4)) = bytes example_space"
  by (simp add: rrealloc_def rfree_def mm_reuse_def example_space_def)

section \<open>The subscription array: entering a subscription\<close>



























lemma bucket_free_and_bits [simp]:
  "bucket m (v\<lparr>free_and_bits := x\<rparr>) k = bucket m v k"
  by (simp add: bucket_def actor_def actorNonZero_def)

lemma advisors_free_and_bits [simp]:
  "advisors vic m (v\<lparr>free_and_bits := x\<rparr>) = advisors vic m v"
  by (simp add: advisors_def actorNonZero_def)




section \<open>Properties of subscribe and resize\<close>













text \<open>
  Beyond the bound of the theorem the product \<open>(n+1)*3\<close> wraps around: with
  1431655765 entries, outside the subscription region, \<open>resize\<close> asks the allocator for
  one slot.
\<close>

lemma resize_product_wraps:
  "cur (mm (fst (resize example_vic example_home (example_var\<lparr>entries := 1431655765\<rparr>))))
     - cur (mm example_home) = 1"
  by (simp add: resize_def alloc_def ralloc_def mm_alloc_def free_def rfree_def mm_reuse_def
      Let_def degree_def example_vic_def example_var_def example_home_def example_space_def
      drop_bit_eq_div u32_def split_beta)

section \<open>The subscription array: cancelling a subscription\<close>










lemma rotate_back_snoc [simp]: "rotate_back (ys @ [y]) = y # ys"
  by (simp add: rotate_back_def)

lemma rotate_back_Nil [simp]: "rotate_back [] = []"
  by (simp add: rotate_back_def)

lemma set_rotate_back [simp]: "set (rotate_back xs) = set xs"
  by (cases xs rule: rev_cases) auto

lemma distinct_rotate_back [simp]: "distinct (rotate_back xs) = distinct xs"
  by (cases xs rule: rev_cases) auto

lemma length_rotate_back [simp]: "length (rotate_back xs) = length xs"
  by (cases xs rule: rev_cases) auto





section \<open>The invariant of the subscription array\<close>

















section \<open>Properties of cloning\<close>

lemma mark_even: "even p \<Longrightarrow> mark p = p + 1"
  unfolding mark_def or_one_eq by simp

lemma marked_mark: "marked (mark p)"
proof -
  have "odd (p OR 1)"
    unfolding even_or_iff by simp
  then have "(p OR 1) mod 2 \<noteq> 0"
    by presburger
  then show ?thesis
    unfolding marked_def mark_def and_one_eq [of "p OR 1"] .
qed

lemma unmark_mark:
  assumes "even p"
  shows "unmark (mark p) = p"
proof -
  have "(p + 1) - (p + 1) mod 2 = p"
    using assms by presburger
  then show ?thesis
    unfolding unmark_def mark_even [OF assms] and_one_eq [of "p + 1"] .
qed

lemma restore_idx:
  assumes len: "length ix = Suc n"
  shows "(if 0 < n \<and> w then ((set_next w p ix)[0 := ix ! 0])[1 := ix ! 1]
          else (set_next w p ix)[0 := ix ! 0]) = ix"
proof (cases "0 < n \<and> w")
  case True
  have "((ix[0 := a, 1 := b])[0 := ix ! 0])[1 := ix ! 1] = ix" for a b
  proof (rule nth_equalityI)
    fix i
    assume "i < length (((ix[0 := a, 1 := b])[0 := ix ! 0])[1 := ix ! 1])"
    then show "(((ix[0 := a, 1 := b])[0 := ix ! 0])[1 := ix ! 1]) ! i = ix ! i"
      by (cases "i = 0"; cases "i = 1") (simp_all add: nth_list_update)
  qed simp
  with True show ?thesis
    by (simp add: set_next_def)
next
  case False
  show ?thesis
  proof (cases w)
    case True
    with False have "n = 0"
      by simp
    with len have l1: "length ix = 1"
      by simp
    have "(ix[0 := a, 1 := b])[0 := ix ! 0] = ix" for a b
      using l1 by (intro nth_equalityI) (simp_all add: nth_list_update)
    with True False show ?thesis
      by (simp add: set_next_def)
  next
    case False
    then show ?thesis
      by (simp add: set_next_def)
  qed
qed

lemma update_original:
  "fst (snd (snd (update vic wide home this x sub))) =
     (if pc_max vic > 0 \<and> wide
      then x\<lparr>base := base this, idx := ((idx x)[0 := idx this ! 0])[1 := idx this ! 1]\<rparr>
      else x\<lparr>base := base this, idx := (idx x)[0 := idx this ! 0]\<rparr>)"
  unfolding update_def Let_def by (simp add: split_beta)

lemma map_nth_upt: "length xs = n \<Longrightarrow> map (\<lambda>k. xs ! k) [0 ..< n] = xs"
  using map_nth [of xs] by simp

text \<open>
  Claim C7. Let \<open>x\<close> be a variable implementation with its \<open>pc_max + 1\<close> boundaries
  (and no subscription if it has no array), cloned into a clone at an aligned (even)
  address \<open>this\<close>. The cloning constructor succeeds and leaves in \<open>x.base\<close> the
  pointer to the clone with its low bit marked: \<open>copied()\<close> holds and \<open>forward()\<close> is
  the address of the clone. The clone holds the base pointer, the boundaries and the
  number of entries of \<open>x\<close>. After \<open>update\<close> has been called on the clone, whatever
  the space and the cursor \<open>sub\<close>, the original is what it was before the constructor
  ran: its base pointer, its boundaries \<open>idx\<close>, its number of entries (and its
  \<open>free_and_bits\<close>, which cloning never writes) all have their former values.
\<close>

theorem clone_forward_and_reset:
  assumes al: "even this"
    and len: "length (idx x) = pc_max vic + 1"
    and noidx: "base x = NULL \<longrightarrow> entries x = 0"
  shows "\<exists>c1 clone x1.
           VarImp_copy vic wide c this xa x = Inr (c1, clone, x1) \<and>
           base x1 = mark this \<and> copied x1 \<and> forward x1 = this \<and>
           base clone = base x \<and> entries clone = entries x \<and> idx clone = idx x \<and>
           (\<forall>home sub. fst (snd (snd (update vic wide home clone x1 sub))) = x)"
proof -
  define reg where "reg = (if base x = NULL then vars_noidx c else vars_u c (idx_c vic))"
  define clone where
    "clone = \<lparr>base = base x, entries = entries x,
              free_and_bits = free_and_bits x AND (push_bit (free_bits vic) 1 - 1),
              idx = idx x\<rparr>"
  define x1 where "x1 = x\<lparr>base := mark this, idx := set_next wide reg (idx x)\<rparr>"
  define c1 where
    "c1 = (if base x = NULL then c\<lparr>vars_noidx := xa\<rparr>
           else c\<lparr>vars_u := (vars_u c)(idx_c vic := xa)\<rparr>)"
  have ix: "map (\<lambda>k. idx x ! k) [0 ..< pc_max vic + 1] = idx x"
    using len by (rule map_nth_upt [OF _, of "idx x"])
  have run: "VarImp_copy vic wide c this xa x = Inr (c1, clone, x1)"
    using noidx unfolding VarImp_copy_def Let_def ix
    by (cases "base x = NULL") (simp_all add: degree_def reg_def clone_def x1_def c1_def)
  have len1: "length (idx x) = Suc (pc_max vic)"
    using len by simp
  have reset: "fst (snd (snd (update vic wide h clone x1 s))) = x" for h s
  proof (cases "0 < pc_max vic \<and> wide")
    case True
    with restore_idx [OF len1, of wide reg]
    have "((set_next wide reg (idx x))[0 := idx x ! 0])[1 := idx x ! 1] = idx x"
      by simp
    with True show ?thesis
      unfolding update_original by (simp add: clone_def x1_def)
  next
    case False
    with restore_idx [OF len1, of wide reg]
    have "(set_next wide reg (idx x))[0 := idx x ! 0] = idx x"
      by simp
    with False show ?thesis
      unfolding update_original by (auto simp add: clone_def x1_def)
  qed
  have "base x1 = mark this" "copied x1" "forward x1 = this"
    "base clone = base x" "entries clone = entries x" "idx clone = idx x"
    using al by (simp_all add: x1_def clone_def copied_def forward_def marked_mark unmark_mark)
  with run reset show ?thesis
    by blast
qed


theorem clone_forward_and_reset_witness:
  "even (5000 :: nat) \<and> length (idx example_var) = pc_max example_vic + 1 \<and>
   base example_var \<noteq> NULL \<and>
   VarImp_copy example_vic True example_clone_block 5000 4000 example_var =
     Inr (example_clone_block\<lparr>vars_u := (vars_u example_clone_block)(0 := 4000)\<rparr>,
          example_var,
          example_var\<lparr>base := 5001, idx := [0, 0, 4]\<rparr>) \<and>
   copied (example_var\<lparr>base := 5001, idx := [0, 0, 4]\<rparr>) \<and>
   forward (example_var\<lparr>base := 5001, idx := [0, 0, 4]\<rparr>) = 5000 \<and>
   fst (snd (snd (update example_vic True example_home example_var
     (example_var\<lparr>base := 5001, idx := [0, 0, 4]\<rparr>) 200))) = example_var"
proof -
  have h1: "even (5000 :: nat)"
    by simp
  have h2: "length (idx example_var) = pc_max example_vic + 1"
    by (simp add: example_var_def example_vic_def)
  have h3: "base example_var = NULL \<longrightarrow> entries example_var = 0"
    by (simp add: example_var_def)
  have run: "VarImp_copy example_vic True example_clone_block 5000 4000 example_var =
     Inr (example_clone_block\<lparr>vars_u := (vars_u example_clone_block)(0 := 4000)\<rparr>,
          example_var,
          example_var\<lparr>base := 5001, idx := [0, 0, 4]\<rparr>)"
    unfolding VarImp_copy_def Let_def mark_even [OF h1]
    by (simp add: example_var_def example_vic_def example_clone_block_def degree_def
        set_next_def upt_conv_Cons take_bit_eq_mask [symmetric] mask_eq_exp_minus_1 and.commute)
  note t = clone_forward_and_reset [OF h1 h2 h3, of True example_clone_block 4000]
  from t obtain c1 clone x1 where
    r: "VarImp_copy example_vic True example_clone_block 5000 4000 example_var = Inr (c1, clone, x1)"
    and p: "copied x1" "forward x1 = 5000"
      "\<forall>home sub. fst (snd (snd (update example_vic True home clone x1 sub))) = example_var"
    by blast
  from r run have e: "clone = example_var" "x1 = example_var\<lparr>base := 5001, idx := [0, 0, 4]\<rparr>"
    by simp_all
  from p(3) have "fst (snd (snd (update example_vic True example_home clone x1 200))) = example_var"
    by blast
  with h1 h2 run p(1,2) show ?thesis
    unfolding e by (simp add: example_var_def)
qed

section \<open>Properties of advise\<close>

lemma mark_disposed_slots [simp]: "slots (mark_disposed home a) = slots home"
  by (simp add: mark_disposed_def Let_def)

lemma mark_disposed_queue [simp]: "queue (mark_disposed home a) = queue home"
  by (simp add: mark_disposed_def Let_def)
















section \<open>Properties of shared handles\<close>

lemma in_nonnull:
  assumes "NULL \<notin> A" and "x \<in> A"
  shows "x \<noteq> NULL"
proof
  assume "x = NULL"
  with assms show False
    by simp
qed

lemma refs_subset: "refs s x \<subseteq> handles s"
  by (auto simp add: refs_def)

lemma refs_card_le:
  assumes "finite (handles s)"
  shows "card (refs s x) \<le> card (handles s)"
  using assms by (intro card_mono refs_subset)

lemma refs_finite: "finite (handles s) \<Longrightarrow> finite (refs s x)"
  using refs_subset [of s x] by (rule finite_subset)

lemma attach_counted:
  assumes c: "counted s"
    and h: "h \<notin> handles s \<or> obj s h = NULL"
    and y: "y = NULL \<or> y \<in> allocated s"
    and bound: "card (insert h (handles s)) < 2 ^ 32"
    and o': "obj s' = (obj s)(h := y)"
    and h': "handles s' = insert h (handles s)"
    and a': "allocated s' = allocated s"
    and u': "use_cnt s' = use_cnt s"
  shows "counted (subscribe_handle s' h) \<and>
         allocated (subscribe_handle s' h) = allocated s \<and>
         handles (subscribe_handle s' h) = insert h (handles s) \<and>
         obj (subscribe_handle s' h) = (obj s)(h := y)"
proof -
  define t where "t = subscribe_handle s' h"
  from c have fin: "finite (handles s)" and nn: "NULL \<notin> allocated s"
    and dang: "\<forall>k\<in>handles s. obj s k = NULL \<or> obj s k \<in> allocated s"
    and cnt: "\<forall>x\<in>allocated s. use_cnt s x = card (refs s x)"
    unfolding counted_def by blast+
  have ot: "obj t = (obj s)(h := y)" and ht: "handles t = insert h (handles s)"
    and at: "allocated t = allocated s"
    unfolding t_def subscribe_handle_def using o' h' a' by simp_all
  have ut: "use_cnt t = (if y \<noteq> NULL then (use_cnt s)(y := (use_cnt s y + 1) mod 2 ^ 32)
                         else use_cnt s)"
    unfolding t_def subscribe_handle_def using o' u' by simp
  have hr: "h \<notin> refs s x" if "x \<noteq> NULL" for x
    using h that by (auto simp add: refs_def)
  have rt: "refs t x = (if x = y then insert h (refs s x) else refs s x)" if "x \<noteq> NULL" for x
    using h that unfolding refs_def ot ht by auto
  have "use_cnt t x = card (refs t x)" if x: "x \<in> allocated s" for x
  proof -
    from nn x have x0: "x \<noteq> NULL"
      by (rule in_nonnull)
    show ?thesis
    proof (cases "x = y")
      case True
      have "refs t x \<subseteq> insert h (handles s)"
        using refs_subset [of t x] ht by simp
      then have "card (refs t x) \<le> card (insert h (handles s))"
        using fin by (intro card_mono) simp_all
      moreover have "card (refs t x) = card (refs s x) + 1"
        unfolding rt [OF x0] using True hr [OF x0] refs_finite [OF fin, of x] by simp
      ultimately have "card (refs s x) + 1 < 2 ^ 32"
        using bound by simp
      then have "(use_cnt s x + 1) mod 2 ^ 32 = card (refs s x) + 1"
        using cnt x by simp
      with True x0 \<open>card (refs t x) = card (refs s x) + 1\<close> show ?thesis
        unfolding ut by simp
    next
      case False
      with x0 cnt x show ?thesis
        unfolding ut rt [OF x0] by simp
    qed
  qed
  moreover have "\<forall>k\<in>handles t. obj t k = NULL \<or> obj t k \<in> allocated t"
    using dang y unfolding ot ht at by auto
  ultimately have "counted t"
    unfolding counted_def using fin nn at ht by simp
  with at ht ot show ?thesis
    unfolding t_def by simp
qed

lemma cancel_counted:
  assumes c: "counted s" and h: "h \<in> handles s" and bound: "card (handles s) < 2 ^ 32"
  shows "\<exists>s1. cancel_handle s h = Inr s1 \<and> counted s1 \<and> obj s1 = (obj s)(h := NULL) \<and>
           handles s1 = handles s \<and>
           allocated s1 = (if obj s h \<noteq> NULL \<and> card (refs s (obj s h)) = 1
                           then allocated s - {obj s h} else allocated s)"
proof -
  from c have fin: "finite (handles s)" and nn: "NULL \<notin> allocated s"
    and dang: "\<forall>k\<in>handles s. obj s k = NULL \<or> obj s k \<in> allocated s"
    and cnt: "\<forall>x\<in>allocated s. use_cnt s x = card (refs s x)"
    unfolding counted_def by blast+
  define x where "x = obj s h"
  show ?thesis
  proof (cases "x = NULL")
    case True
    then have e: "cancel_handle s h = Inr (s\<lparr>obj := (obj s)(h := NULL)\<rparr>)"
      unfolding cancel_handle_def Let_def x_def by simp
    have same: "(obj s)(h := NULL) = obj s"
      using True unfolding x_def by auto
    have "counted (s\<lparr>obj := (obj s)(h := NULL)\<rparr>)"
      using c unfolding counted_def refs_def same by simp
    with True show ?thesis
      unfolding e x_def [symmetric] by simp
  next
    case False
    with dang h have xa: "x \<in> allocated s"
      unfolding x_def by auto
    have hx: "h \<in> refs s x"
      using h unfolding refs_def x_def by simp
    have finr: "finite (refs s x)"
      by (rule refs_finite [OF fin])
    from hx finr have pos: "0 < card (refs s x)"
      by (auto simp add: card_gt_0_iff)
    have lt: "card (refs s x) < 2 ^ 32"
      using refs_card_le [OF fin, of x] bound by simp
    define c1 where "c1 = card (refs s x) - 1"
    have dec: "(use_cnt s x + 2 ^ 32 - 1) mod 2 ^ 32 = c1"
    proof -
      have "use_cnt s x + 2 ^ 32 - 1 = c1 + 2 ^ 32"
        using cnt xa pos unfolding c1_def by simp
      moreover have "c1 < 2 ^ 32"
        using lt unfolding c1_def by simp
      ultimately show ?thesis
        by simp
    qed
    define s1 where "s1 = s\<lparr>use_cnt := (use_cnt s)(x := c1)\<rparr>"
    define s2 where "s2 = (if c1 = 0 then s1\<lparr>allocated := allocated s1 - {x}\<rparr> else s1)"
    define t where "t = s2\<lparr>obj := (obj s2)(h := NULL)\<rparr>"
    have del: "Object_delete s1 x = Inr (s1\<lparr>allocated := allocated s1 - {x}\<rparr>)" if "c1 = 0"
      unfolding Object_delete_def s1_def using that by simp
    have e: "cancel_handle s h = Inr t"
      unfolding cancel_handle_def Let_def x_def [symmetric] dec s1_def [symmetric]
      using False del by (simp add: t_def s2_def)
    have ot: "obj t = (obj s)(h := NULL)" and ht: "handles t = handles s"
      and at: "allocated t = (if c1 = 0 then allocated s - {x} else allocated s)"
      and ut: "use_cnt t = (use_cnt s)(x := c1)"
      unfolding t_def s2_def s1_def by simp_all
    have one: "c1 = 0 \<longleftrightarrow> card (refs s x) = 1"
      using pos unfolding c1_def by auto
    have rt: "refs t z = (if z = x then refs s x - {h} else refs s z)" if "z \<noteq> NULL" for z
      using that unfolding refs_def ot ht x_def by auto
    have "use_cnt t z = card (refs t z)" if z: "z \<in> allocated t" for z
    proof -
      from z have za: "z \<in> allocated s"
        unfolding at by (simp split: if_splits)
      with nn have z0: "z \<noteq> NULL"
        by (rule in_nonnull)
      show ?thesis
      proof (cases "z = x")
        case True
        have "card (refs s x - {h}) = c1"
          unfolding c1_def using hx finr by simp
        with True show ?thesis
          unfolding ut rt [OF z0] by simp
      next
        case F: False
        with cnt za show ?thesis
          unfolding ut rt [OF z0] by simp
      qed
    qed
    moreover have "obj t k = NULL \<or> obj t k \<in> allocated t" if k: "k \<in> handles t" for k
    proof (cases "k = h \<or> obj s k \<noteq> x")
      case True
      with dang k show ?thesis
        unfolding ot ht at by auto
    next
      case F: False
      then have kh: "k \<noteq> h" and kx: "obj s k = x"
        by simp_all
      from k kx have "k \<in> refs s x"
        unfolding refs_def ht by simp
      with hx kh finr have "card (refs s x) \<noteq> 1"
        by (auto simp add: card_1_singleton_iff)
      with one xa kh kx show ?thesis
        unfolding ot at by simp
    qed
    ultimately have "counted t"
      unfolding counted_def using fin nn ht at by (simp split: if_splits)
    with False one show ?thesis
      unfolding e x_def [symmetric] using ot ht at by simp
  qed
qed

lemma card_insert_bound:
  assumes "finite A" and "card A + 1 < n"
  shows "card (insert h A) < n"
  using assms by (simp add: card_insert_if)

lemma card_insert_le: "finite A \<Longrightarrow> card (insert h A) \<le> card A + 1"
  by (simp add: card_insert_if)

lemma Object_new_counted:
  assumes c: "counted s" and x0: "x \<noteq> NULL" and xa: "x \<notin> allocated s"
  shows "counted (Object_new s x)"
proof -
  from c have fin: "finite (handles s)" and nn: "NULL \<notin> allocated s"
    and dang: "\<forall>k\<in>handles s. obj s k = NULL \<or> obj s k \<in> allocated s"
    and cnt: "\<forall>x\<in>allocated s. use_cnt s x = card (refs s x)"
    unfolding counted_def by blast+
  have r: "refs (Object_new s x) z = refs s z" for z
    unfolding refs_def Object_new_def by simp
  have "refs s x = {}"
    using dang x0 xa unfolding refs_def by auto
  then have "\<forall>z\<in>allocated (Object_new s x). use_cnt (Object_new s x) z = card (refs s z)"
    using cnt unfolding Object_new_def by simp
  then show ?thesis
    unfolding counted_def r using fin nn dang x0
    by (auto simp add: Object_new_def)
qed

lemma destroy_counted:
  assumes c: "counted s" and h: "h \<in> handles s" and bound: "card (handles s) < 2 ^ 32"
  shows "\<exists>t. destroy_handle s h = Inr t \<and> counted t \<and> handles t = handles s - {h} \<and>
           allocated t = (if obj s h \<noteq> NULL \<and> card (refs s (obj s h)) = 1
                          then allocated s - {obj s h} else allocated s)"
proof -
  from cancel_counted [OF c h bound] obtain s1 where
    e: "cancel_handle s h = Inr s1" and c1: "counted s1" and o1: "obj s1 = (obj s)(h := NULL)"
    and h1: "handles s1 = handles s"
    and a1: "allocated s1 = (if obj s h \<noteq> NULL \<and> card (refs s (obj s h)) = 1
                             then allocated s - {obj s h} else allocated s)"
    by blast
  define t where "t = s1\<lparr>handles := handles s1 - {h}\<rparr>"
  have d: "destroy_handle s h = Inr t"
    unfolding destroy_handle_def e t_def by simp
  from c1 have fin: "finite (handles s1)" and nn: "NULL \<notin> allocated s1"
    and dang: "\<forall>k\<in>handles s1. obj s1 k = NULL \<or> obj s1 k \<in> allocated s1"
    and cnt: "\<forall>x\<in>allocated s1. use_cnt s1 x = card (refs s1 x)"
    unfolding counted_def by blast+
  have oh: "obj s1 h = NULL"
    unfolding o1 by simp
  have r: "refs t z = refs s1 z" if "z \<noteq> NULL" for z
    using that oh unfolding refs_def t_def by auto
  have "use_cnt t z = card (refs t z)" if "z \<in> allocated t" for z
  proof -
    from that have z: "z \<in> allocated s1"
      unfolding t_def by simp
    with nn have "z \<noteq> NULL"
      by (rule in_nonnull)
    with cnt z show ?thesis
      unfolding r [OF \<open>z \<noteq> NULL\<close>] by (simp add: t_def)
  qed
  moreover have "\<forall>k\<in>handles t. obj t k = NULL \<or> obj t k \<in> allocated t"
    using dang unfolding t_def by simp
  ultimately have "counted t"
    unfolding counted_def using fin nn by (simp add: t_def)
  moreover have "handles t = handles s - {h}" "allocated t = allocated s1"
    unfolding t_def h1 by simp_all
  ultimately show ?thesis
    using d a1 by simp
qed

lemma assign_counted:
  assumes c: "counted s" and h: "h \<in> handles s" and sh: "sh \<in> handles s"
    and ne: "sh \<noteq> h" and bound: "card (handles s) < 2 ^ 32"
  shows "\<exists>t. assign_handle s h sh = Inr t \<and> counted t \<and> handles t = handles s \<and>
           allocated t = (if obj s h \<noteq> NULL \<and> card (refs s (obj s h)) = 1
                          then allocated s - {obj s h} else allocated s)"
proof -
  from c have fin: "finite (handles s)"
    and dang: "\<forall>k\<in>handles s. obj s k = NULL \<or> obj s k \<in> allocated s"
    unfolding counted_def by blast+
  from cancel_counted [OF c h bound] obtain s1 where
    e: "cancel_handle s h = Inr s1" and c1: "counted s1" and o1: "obj s1 = (obj s)(h := NULL)"
    and h1: "handles s1 = handles s"
    and a1: "allocated s1 = (if obj s h \<noteq> NULL \<and> card (refs s (obj s h)) = 1
                             then allocated s - {obj s h} else allocated s)"
    by blast
  define y where "y = obj s1 sh"
  define s' where "s' = s1\<lparr>obj := (obj s1)(h := y)\<rparr>"
  have a: "assign_handle s h sh = Inr (subscribe_handle s' h)"
    unfolding assign_handle_def e s'_def y_def using ne by simp
  have ys: "y = obj s sh"
    unfolding y_def o1 using ne by simp
  have y: "y = NULL \<or> y \<in> allocated s1"
  proof (cases "y = obj s h \<and> y \<noteq> NULL")
    case True
    then have "{h, sh} \<subseteq> refs s (obj s h)"
      using h sh ys unfolding refs_def by auto
    then have "card {h, sh} \<le> card (refs s (obj s h))"
      using refs_finite [OF fin] by (intro card_mono)
    with ne have "card (refs s (obj s h)) \<noteq> 1"
      by simp
    with dang sh ys show ?thesis
      unfolding a1 by auto
  next
    case False
    with dang sh ys show ?thesis
      unfolding a1 by auto
  qed
  have hn: "h \<notin> handles s1 \<or> obj s1 h = NULL"
    unfolding o1 by simp
  have ins: "insert h (handles s1) = handles s"
    unfolding h1 using h by auto
  have b: "card (insert h (handles s1)) < 2 ^ 32"
    unfolding ins by (rule bound)
  have "obj s' = (obj s1)(h := y)" "handles s' = insert h (handles s1)"
    "allocated s' = allocated s1" "use_cnt s' = use_cnt s1"
    unfolding s'_def ins using h1 by simp_all
  from attach_counted [OF c1 hn y b this] a a1 ins show ?thesis
    by simp
qed

lemma update_shared_counted:
  assumes c: "counted s" and h: "h \<in> handles s" and sh: "sh \<in> handles s"
    and fresh: "obj s h = NULL" and bound: "card (handles s) < 2 ^ 32"
  shows "counted (update_handle copy s h True sh) \<and>
         handles (update_handle copy s h True sh) = handles s \<and>
         allocated (update_handle copy s h True sh) = allocated s"
proof (cases "obj s sh = NULL")
  case True
  have same: "(obj s)(h := NULL) = obj s"
    using fresh by auto
  have "counted (s\<lparr>obj := (obj s)(h := NULL)\<rparr>)"
    using c unfolding counted_def refs_def same by simp
  with True show ?thesis
    unfolding update_handle_def by simp
next
  case False
  from c have dang: "\<forall>k\<in>handles s. obj s k = NULL \<or> obj s k \<in> allocated s"
    unfolding counted_def by blast
  define s' where "s' = s\<lparr>obj := (obj s)(h := obj s sh)\<rparr>"
  have u: "update_handle copy s h True sh = subscribe_handle s' h"
    unfolding update_handle_def s'_def using False by simp
  have ins: "insert h (handles s) = handles s"
    using h by auto
  have y: "obj s sh = NULL \<or> obj s sh \<in> allocated s"
    using dang sh by blast
  have hn: "h \<notin> handles s \<or> obj s h = NULL"
    using fresh by simp
  have b: "card (insert h (handles s)) < 2 ^ 32"
    unfolding ins by (rule bound)
  have "obj s' = (obj s)(h := obj s sh)" "handles s' = insert h (handles s)"
    "allocated s' = allocated s" "use_cnt s' = use_cnt s"
    unfolding s'_def ins by simp_all
  from attach_counted [OF c hn y b this] ins show ?thesis
    unfolding u by simp
qed

lemma construct_counted:
  assumes c: "counted s" and h: "h \<notin> handles s" and y: "y = NULL \<or> y \<in> allocated s"
    and bound: "card (handles s) + 1 < 2 ^ 32"
  shows "counted (SharedHandle_object s h y) \<and>
         handles (SharedHandle_object s h y) = insert h (handles s) \<and>
         allocated (SharedHandle_object s h y) = allocated s"
proof -
  from c have fin: "finite (handles s)"
    unfolding counted_def by blast
  define s' where "s' = s\<lparr>obj := (obj s)(h := y), handles := insert h (handles s)\<rparr>"
  have hn: "h \<notin> handles s \<or> obj s h = NULL"
    using h by simp
  have "obj s' = (obj s)(h := y)" "handles s' = insert h (handles s)"
    "allocated s' = allocated s" "use_cnt s' = use_cnt s"
    unfolding s'_def by simp_all
  from attach_counted [OF c hn y card_insert_bound [OF fin bound] this] show ?thesis
    unfolding SharedHandle_object_def s'_def by simp
qed

lemma void_counted:
  assumes c: "counted s" and h: "h \<notin> handles s"
  shows "counted (SharedHandle_void s h)"
proof -
  have r: "refs (SharedHandle_void s h) z = refs s z" if "z \<noteq> NULL" for z
    using that h unfolding refs_def SharedHandle_void_def by auto
  from c have nn: "NULL \<notin> allocated s"
    unfolding counted_def by blast
  have "use_cnt (SharedHandle_void s h) z = card (refs (SharedHandle_void s h) z)"
    if z: "z \<in> allocated s" for z
  proof -
    from nn z have "z \<noteq> NULL"
      by (rule in_nonnull)
    from r [OF this] c z show ?thesis
      unfolding counted_def by (simp add: SharedHandle_void_def)
  qed
  with c show ?thesis
    unfolding counted_def by (simp add: SharedHandle_void_def)
qed

lemma exec_op_counted:
  assumes c: "counted s" and p: "permitted s op" and bound: "card (handles s) + 1 < 2 ^ 32"
  shows "\<exists>t. exec_op copy s op = Inr t \<and> counted t \<and> card (handles t) \<le> card (handles s) + 1 \<and>
           (\<forall>x\<in>allocated s. x \<notin> allocated t \<longleftrightarrow> released s op = x \<and> card (refs s x) = 1)"
proof -
  from c have fin: "finite (handles s)" and nn: "NULL \<notin> allocated s"
    and dang: "\<forall>k\<in>handles s. obj s k = NULL \<or> obj s k \<in> allocated s"
    unfolding counted_def by blast+
  from bound have b: "card (handles s) < 2 ^ 32"
    by simp
  have nz: "x \<noteq> NULL" if "x \<in> allocated s" for x
    using nn that by (rule in_nonnull)
  from p have l: "lifetime_ok s op" and f: "fresh_update s op"
    unfolding permitted_def by simp_all
  show ?thesis
  proof (cases op)
    case (New_object x)
    with l have "x \<noteq> NULL" "x \<notin> allocated s"
      unfolding lifetime_ok_def by simp_all
    from Object_new_counted [OF c this] nz show ?thesis
      unfolding New_object exec_op_def released_def by (auto simp add: Object_new_def)
  next
    case (Construct h)
    with l have "h \<notin> handles s"
      unfolding lifetime_ok_def by simp
    from void_counted [OF c this] nz card_insert_le [OF fin, of h] show ?thesis
      unfolding Construct exec_op_def released_def by (auto simp add: SharedHandle_void_def)
  next
    case (Construct_from h so)
    with l have "h \<notin> handles s" "so = NULL \<or> so \<in> allocated s"
      unfolding lifetime_ok_def by simp_all
    from construct_counted [OF c this bound] nz card_insert_le [OF fin, of h] show ?thesis
      unfolding Construct_from exec_op_def released_def by auto
  next
    case (Copy_construct h sh)
    with l have h: "h \<notin> handles s" and sh: "sh \<in> handles s"
      unfolding lifetime_ok_def by simp_all
    from dang sh have "obj s sh = NULL \<or> obj s sh \<in> allocated s"
      by blast
    from construct_counted [OF c h this bound] nz card_insert_le [OF fin, of h] show ?thesis
      unfolding Copy_construct exec_op_def released_def SharedHandle_copy_def
        SharedHandle_object_def by auto
  next
    case (Assign h sh)
    with l have h: "h \<in> handles s" and sh: "sh \<in> handles s"
      unfolding lifetime_ok_def by simp_all
    show ?thesis
    proof (cases "sh = h")
      case True
      with c nz show ?thesis
        unfolding Assign exec_op_def released_def assign_handle_def by auto
    next
      case False
      from assign_counted [OF c h sh False b] obtain t where
        t: "assign_handle s h sh = Inr t" "counted t" "handles t = handles s"
        "allocated t = (if obj s h \<noteq> NULL \<and> card (refs s (obj s h)) = 1
                        then allocated s - {obj s h} else allocated s)"
        by blast
      have "\<forall>x\<in>allocated s. x \<notin> allocated t \<longleftrightarrow> obj s h = x \<and> card (refs s x) = 1"
        using nz unfolding t(4) by auto
      with t False show ?thesis
        unfolding Assign exec_op_def released_def by simp
    qed
  next
    case (Update_shared h sh)
    with l f have h: "h \<in> handles s" and sh: "sh \<in> handles s" and fr: "obj s h = NULL"
      unfolding lifetime_ok_def fresh_update_def by simp_all
    from update_shared_counted [OF c h sh fr b, of copy] nz show ?thesis
      unfolding Update_shared exec_op_def released_def by auto
  next
    case (Destroy h)
    with l have h: "h \<in> handles s"
      unfolding lifetime_ok_def by simp
    from destroy_counted [OF c h b] obtain t where
      t: "destroy_handle s h = Inr t" "counted t" "handles t = handles s - {h}"
      "allocated t = (if obj s h \<noteq> NULL \<and> card (refs s (obj s h)) = 1
                      then allocated s - {obj s h} else allocated s)"
      by blast
    have "\<forall>x\<in>allocated s. x \<notin> allocated t \<longleftrightarrow> obj s h = x \<and> card (refs s x) = 1"
      using nz unfolding t(4) by auto
    moreover have "card (handles t) \<le> card (handles s) + 1"
      unfolding t(3) using fin by (simp add: card_Diff1_le le_SucI)
    ultimately show ?thesis
      using t unfolding Destroy exec_op_def released_def by simp
  qed
qed

lemma run_ops_prefix:
  "counted s \<Longrightarrow> run_ok permitted copy s ops \<Longrightarrow> card (handles s) + length ops < 2 ^ 32 \<Longrightarrow>
   n \<le> length ops \<Longrightarrow>
   \<exists>t. run_ops copy s (take n ops) = Inr t \<and> counted t \<and>
       run_ok permitted copy t (drop n ops) \<and>
       card (handles t) + length (drop n ops) < 2 ^ 32"
proof (induction ops arbitrary: s n)
  case Nil
  then show ?case
    by simp
next
  case (Cons op ops)
  show ?case
  proof (cases n)
    case 0
    with Cons.prems show ?thesis
      by simp
  next
    case (Suc m)
    from Cons.prems(2) have p: "permitted s op"
      by simp
    from Cons.prems(3) have b: "card (handles s) + 1 < 2 ^ 32"
      by simp
    from exec_op_counted [OF Cons.prems(1) p b, of copy] obtain s1 where
      e: "exec_op copy s op = Inr s1" and c1: "counted s1"
      and h1: "card (handles s1) \<le> card (handles s) + 1"
      by blast
    from Cons.prems(2) e have r1: "run_ok permitted copy s1 ops"
      by simp
    from Cons.prems(3) h1 have b1: "card (handles s1) + length ops < 2 ^ 32"
      by simp
    from Cons.prems(4) Suc have m: "m \<le> length ops"
      by simp
    from Cons.IH [OF c1 r1 b1 m] e Suc show ?thesis
      by simp
  qed
qed

text \<open>
  Claim C9, for runs in which \<open>update\<close> is called only on a handle that holds no
  object. Let a heap satisfy the invariant of reference counting, let a list of
  operations (creation of an object, the three constructors of a handle, assignment,
  \<open>update\<close> with \<open>share = true\<close>, destruction) keep to the lifetime of objects and
  handles, with every \<open>update\<close> on a handle that holds no object, and let the handles
  remain fewer than \<open>2^32\<close>. Then every initial part of the list runs without a failed
  assertion, and in the heap it leaves: the counter of every object that exists is the
  number of the handles that refer to it; every handle holds \<open>NULL\<close> or an object that
  exists; the assignment of any handle to itself leaves the heap as it is; and the next
  operation of the list deletes an object that exists exactly when it makes a handle
  release that object while the counter of the object is 1, that is, when the last handle
  that refers to it releases it.
\<close>

theorem use_cnt_counts_handles:
  assumes c: "counted s"
    and ok: "run_ok permitted copy s ops"
    and bound: "card (handles s) + length ops < 2 ^ 32"
    and n: "n \<le> length ops"
  shows "\<exists>t. run_ops copy s (take n ops) = Inr t \<and>
           (\<forall>x\<in>allocated t. use_cnt t x = card (refs t x)) \<and>
           (\<forall>h\<in>handles t. obj t h = NULL \<or> obj t h \<in> allocated t) \<and>
           (\<forall>h. exec_op copy t (Assign h h) = Inr t) \<and>
           (n < length ops \<longrightarrow>
              (\<exists>t'. exec_op copy t (ops ! n) = Inr t' \<and>
                 (\<forall>x\<in>allocated t. x \<notin> allocated t' \<longleftrightarrow>
                    released t (ops ! n) = x \<and> use_cnt t x = 1)))"
proof -
  from run_ops_prefix [OF c ok bound n] obtain t where
    r: "run_ops copy s (take n ops) = Inr t" and ct: "counted t"
    and okt: "run_ok permitted copy t (drop n ops)"
    and bt: "card (handles t) + length (drop n ops) < 2 ^ 32"
    by blast
  from ct have cnt: "\<forall>x\<in>allocated t. use_cnt t x = card (refs t x)"
    and dang: "\<forall>h\<in>handles t. obj t h = NULL \<or> obj t h \<in> allocated t"
    unfolding counted_def by blast+
  have self: "\<forall>h. exec_op copy t (Assign h h) = Inr t"
    unfolding exec_op_def assign_handle_def by simp
  have step: "\<exists>t'. exec_op copy t (ops ! n) = Inr t' \<and>
                 (\<forall>x\<in>allocated t. x \<notin> allocated t' \<longleftrightarrow>
                    released t (ops ! n) = x \<and> use_cnt t x = 1)" if lt: "n < length ops"
  proof -
    from lt have d: "drop n ops = ops ! n # drop (Suc n) ops"
      by (rule Cons_nth_drop_Suc [symmetric])
    from okt have p: "permitted t (ops ! n)"
      unfolding d by simp
    from bt have b: "card (handles t) + 1 < 2 ^ 32"
      unfolding d by simp
    from exec_op_counted [OF ct p b, of copy] obtain t' where
      "exec_op copy t (ops ! n) = Inr t'"
      "\<forall>x\<in>allocated t. x \<notin> allocated t' \<longleftrightarrow> released t (ops ! n) = x \<and> card (refs t x) = 1"
      by blast
    with cnt show ?thesis
      by auto
  qed
  from r cnt dang self step show ?thesis
    by blast
qed

lemmas handle_defs =
  exec_op_def Object_new_def Object_delete_def SharedHandle_void_def SharedHandle_object_def
  SharedHandle_copy_def subscribe_handle_def cancel_handle_def assign_handle_def
  destroy_handle_def update_handle_def lifetime_ok_def fresh_update_def permitted_def
  empty_heap_def Let_def

lemma counted_empty_heap: "counted empty_heap"
  by (simp add: counted_def empty_heap_def refs_def)

text \<open>
  Claim C9, as stated, fails for \<open>update\<close>. From a heap with nothing in it, an object
  is created, a handle is constructed from it, a second handle is copy-constructed from
  the first, and the first handle is updated from the second with \<open>share = true\<close>. Every
  operation keeps to the lifetime of objects and handles. \<open>update\<close> does not cancel the
  subscription of the handle it overwrites, so the counter of the object is now 3 while
  the two handles refer to it. After both handles have been destroyed, the counter is 1,
  no handle is left, and the object has not been deleted.
\<close>

theorem update_over_object_counterexample:
  "counted empty_heap \<and> run_ok lifetime_ok (\<lambda>x. x) empty_heap update_over_object \<and>
   map_sum id (\<lambda>t. (500 \<in> allocated t, use_cnt t 500, refs t 500))
     (run_ops (\<lambda>x. x) empty_heap (take 4 update_over_object)) = Inr (True, 3, {10, 20}) \<and>
   map_sum id (\<lambda>t. (500 \<in> allocated t, use_cnt t 500, handles t))
     (run_ops (\<lambda>x. x) empty_heap update_over_object) = Inr (True, 1, {})"
proof -
  have "run_ok lifetime_ok (\<lambda>x. x) empty_heap update_over_object"
    by (simp add: update_over_object_def handle_defs)
  moreover have "map_sum id (\<lambda>t. (500 \<in> allocated t, use_cnt t 500, refs t 500))
     (run_ops (\<lambda>x. x) empty_heap (take 4 update_over_object)) = Inr (True, 3, {10, 20})"
    by (auto simp add: update_over_object_def handle_defs refs_def)
  moreover have "map_sum id (\<lambda>t. (500 \<in> allocated t, use_cnt t 500, handles t))
     (run_ops (\<lambda>x. x) empty_heap update_over_object) = Inr (True, 1, {})"
    by (auto simp add: update_over_object_def handle_defs)
  ultimately show ?thesis
    using counted_empty_heap by simp
qed

theorem use_cnt_counts_handles_witness:
  "counted empty_heap \<and> run_ok permitted (\<lambda>x. x) empty_heap share_and_release \<and>
   card (handles empty_heap) + length share_and_release < 2 ^ 32 \<and>
   (8 :: nat) \<le> length share_and_release \<and>
   (\<exists>t. run_ops (\<lambda>x. x) empty_heap (take 8 share_and_release) = Inr t \<and>
        500 \<in> allocated t \<and> use_cnt t 500 = 1 \<and> card (refs t 500) = 1 \<and>
        exec_op (\<lambda>x. x) t (Assign 20 20) = Inr t \<and>
        (\<exists>t'. exec_op (\<lambda>x. x) t (Destroy 20) = Inr t' \<and> 500 \<notin> allocated t'))"
proof -
  have ok: "run_ok permitted (\<lambda>x. x) empty_heap share_and_release"
    by (simp add: share_and_release_def handle_defs)
  have bound: "card (handles empty_heap) + length share_and_release < 2 ^ 32"
    by (simp add: share_and_release_def empty_heap_def)
  have n: "(8 :: nat) \<le> length share_and_release"
    by (simp add: share_and_release_def)
  have nth: "share_and_release ! 8 = Destroy 20" and lt: "8 < length share_and_release"
    by (simp_all add: share_and_release_def)
  have run: "map_sum id (\<lambda>t. (500 \<in> allocated t, use_cnt t 500, obj t 20))
      (run_ops (\<lambda>x. x) empty_heap (take 8 share_and_release)) = Inr (True, 1, 500)"
    by (simp add: share_and_release_def handle_defs)
  note t = use_cnt_counts_handles [OF counted_empty_heap ok bound n]
  from t obtain t where
    r: "run_ops (\<lambda>x. x) empty_heap (take 8 share_and_release) = Inr t"
    and cnt: "\<forall>x\<in>allocated t. use_cnt t x = card (refs t x)"
    and self: "\<forall>h. exec_op (\<lambda>x. x) t (Assign h h) = Inr t"
    and step: "8 < length share_and_release \<longrightarrow>
       (\<exists>t'. exec_op (\<lambda>x. x) t (share_and_release ! 8) = Inr t' \<and>
          (\<forall>x\<in>allocated t. x \<notin> allocated t' \<longleftrightarrow>
             released t (share_and_release ! 8) = x \<and> use_cnt t x = 1))"
    by blast
  from run have a: "500 \<in> allocated t" and u: "use_cnt t 500 = 1" and o2: "obj t 20 = 500"
    unfolding r by simp_all
  from cnt a u have c1: "card (refs t 500) = 1"
    by auto
  from step lt obtain t' where
    e: "exec_op (\<lambda>x. x) t (Destroy 20) = Inr t'"
    and d: "\<forall>x\<in>allocated t. x \<notin> allocated t' \<longleftrightarrow> released t (Destroy 20) = x \<and> use_cnt t x = 1"
    unfolding nth by blast
  have "released t (Destroy 20) = 500"
    unfolding released_def using o2 by simp
  with d a u have "500 \<notin> allocated t'"
    by blast
  with counted_empty_heap ok bound n r a u c1 self e show ?thesis
    by blast
qed

end
